theory Spec2Isabelle
  imports Main "HOL-Library.Word"
begin

section \<open>Process group and index partitioner (dolfin/main/MPI.cpp)\<close>

text \<open>
  \<^verbatim>\<open>dolfin::uint\<close> is \<^verbatim>\<open>unsigned int\<close>: a 32-bit word whose arithmetic wraps around.
  The functions of \<^verbatim>\<open>dolfin::MPI\<close> read the size of the process group and the rank of the
  calling process from \<^verbatim>\<open>num_processes()\<close> and \<^verbatim>\<open>process_number()\<close>; the model passes
  both as arguments.
\<close>

type_synonym uint = "32 word"

text \<open>
  Failures of the code as values. \<open>OutOfRange\<close> is the failed \<^verbatim>\<open>assert(index < N)\<close> of
  \<^verbatim>\<open>index_owner\<close>; \<open>SizeMismatch\<close> is the \<^verbatim>\<open>error(...)\<close> of \<^verbatim>\<open>scatter\<close> and the failed
  \<^verbatim>\<open>assert(values.size() == num_processes())\<close> of \<^verbatim>\<open>gather\<close>; \<open>RequiresMPI\<close> is the
  \<^verbatim>\<open>error("... requires MPI.")\<close> of the build without MPI; \<open>ShouldNotBeCalled\<close> is the
  \<^verbatim>\<open>error("This should not be called")\<close> of the \<^verbatim>\<open>LocalMeshData\<close> constructor;
  \<open>DivisionByZero\<close> is an integer division by zero; \<open>FabricError\<close> is a call that the
  message-passing library rejects as erroneous; \<open>PeerAbsent\<close> is a collective call that
  never completes because a participating process failed before entering it.
\<close>

datatype error =
    OutOfRange
  | SizeMismatch
  | RequiresMPI
  | ShouldNotBeCalled
  | DivisionByZero
  | FabricError
  | PeerAbsent

text \<open>\<^verbatim>\<open>MPI::is_broadcaster\<close> and \<^verbatim>\<open>MPI::is_receiver\<close> (MPI.cpp, lines 50-60).\<close>

definition is_broadcaster :: "uint \<Rightarrow> uint \<Rightarrow> bool" where
  "is_broadcaster num_processes process_number =
     (num_processes > 1 \<and> process_number = 0)"

definition is_receiver :: "uint \<Rightarrow> uint \<Rightarrow> bool" where
  "is_receiver num_processes process_number =
     (num_processes > 1 \<and> process_number > 0)"

text \<open>
  \<^verbatim>\<open>MPI::local_range\<close> (MPI.cpp, lines 247-271). The size of \<^verbatim>\<open>MPI_COMM_WORLD\<close> is at
  least one, so the division is defined for every group the code can run in.
\<close>

definition local_range :: "uint \<Rightarrow> uint \<Rightarrow> uint \<Rightarrow> uint \<times> uint" where
  "local_range N num_processes process_number =
     (let n = N div num_processes;
          r = N mod num_processes
      in if process_number < r
         then (let first = process_number * (n + 1) in (first, first + n + 1))
         else (let first = process_number * n + r in (first, first + n)))"

text \<open>
  \<^verbatim>\<open>MPI::index_owner\<close> (MPI.cpp, lines 273-290). The last division is by \<open>n\<close>, which is 0
  when \<open>N\<close> is below the number of processes; the model makes that trap a failure of its
  own.
\<close>

definition index_owner :: "uint \<Rightarrow> uint \<Rightarrow> uint \<Rightarrow> error + uint" where
  "index_owner index N num_processes =
     (if \<not> index < N then Inl OutOfRange
      else let n = N div num_processes;
               r = N mod num_processes
           in if index < r * (n + 1) then Inr (index div (n + 1))
              else if n = 0 then Inl DivisionByZero
              else Inr (r + (index - r * (n + 1)) div n))"

text \<open>
  The same formulas over unbounded naturals: \<open>block_first a p k\<close> is the first index of
  rank \<open>k\<close> (and \<open>block_first a p (Suc k)\<close> the end of its range), \<open>block_owner\<close> the
  owner of an index. They are used to show that the 32-bit computation never wraps.
\<close>

definition block_first :: "nat \<Rightarrow> nat \<Rightarrow> nat \<Rightarrow> nat" where
  "block_first a p k =
     (if k < a mod p then k * (a div p + 1) else k * (a div p) + a mod p)"

definition block_owner :: "nat \<Rightarrow> nat \<Rightarrow> nat \<Rightarrow> nat" where
  "block_owner a p i =
     (if i < a mod p * (a div p + 1) then i div (a div p + 1)
      else a mod p + (i - a mod p * (a div p + 1)) div (a div p))"

section \<open>Collective operations (dolfin/main/MPI.cpp)\<close>

text \<open>
  A collective is executed by all processes of the group at once, so the model runs the
  code of every rank: \<open>world ! r\<close> is the vector \<^verbatim>\<open>values\<close> that rank \<open>r\<close> passes in, and the
  result lists one outcome per rank. Ranks and the group size are list positions here;
  every value the code can see is below \<open>2 ^ 32\<close>.

  An outcome records the calls the rank made into the message-passing library, in program
  order, the contents of \<^verbatim>\<open>values\<close> when the call ended, and the failure if it did not
  return normally. \<^verbatim>\<open>process_number()\<close> and \<^verbatim>\<open>num_processes()\<close> each call
  \<^verbatim>\<open>SubSystemsManager::init_mpi()\<close> (\<open>Init_mpi\<close>); the constructor and the destructor of
  \<^verbatim>\<open>MPICommunicator\<close> call \<^verbatim>\<open>MPI_Comm_dup\<close> and \<^verbatim>\<open>MPI_Comm_free\<close>.
\<close>

datatype fabric_call =
    Init_mpi
  | Comm_dup
  | Comm_free
  | Scatter_call
  | Allgather_call
  | Allreduce_call

record rank_outcome =
  calls :: "fabric_call list"
  vals :: "uint list"
  failure :: "error option"

text \<open>
  The arguments of one rank's call of \<^verbatim>\<open>MPI_Scatter\<close>: the send buffer and the send count
  (significant at the root only), the receive count and the root.
\<close>

record scatter_args =
  sendbuf :: "uint list"
  sendcount :: nat
  recvcount :: nat
  root_rank :: nat

text \<open>
  \<^verbatim>\<open>MPI::scatter\<close> (MPI.cpp, lines 74-123) up to its call of \<^verbatim>\<open>MPI_Scatter\<close>: the sending
  process checks the size of \<^verbatim>\<open>values\<close>, copies it to \<^verbatim>\<open>send_buffer\<close> and passes
  \<^verbatim>\<open>values.size()\<close> as send count; every process receives into the single
  \<^verbatim>\<open>receive_buffer\<close> with receive count 1.
\<close>

definition scatter_request :: "nat \<Rightarrow> nat \<Rightarrow> uint list \<Rightarrow> nat \<Rightarrow> error + scatter_args" where
  "scatter_request num_processes process_number values sending_process =
     (if process_number = sending_process
      then (if length values \<noteq> num_processes then Inl SizeMismatch
            else Inr \<lparr>sendbuf = map (\<lambda>i. values ! i) [0..<length values],
                      sendcount = length values, recvcount = 1, root_rank = sending_process\<rparr>)
      else Inr \<lparr>sendbuf = [], sendcount = 0, recvcount = 1, root_rank = sending_process\<rparr>)"

text \<open>
  The message-passing library is not part of the repository; its collectives follow the
  MPI standard. \<^verbatim>\<open>MPI_Scatter\<close>: the root sends to rank \<open>i\<close> the \<open>sendcount\<close> elements of
  its buffer that start at position \<open>i * sendcount\<close>, and the number of elements sent to a
  process must equal the number it receives; a call that breaks this is erroneous. A rank
  whose root failed before the call waits for a message that is never sent.
\<close>

definition MPI_Scatter :: "(error + scatter_args) list \<Rightarrow> nat \<Rightarrow> error + uint list" where
  "MPI_Scatter requests rank =
     (case requests ! rank of
        Inl e \<Rightarrow> Inl e
      | Inr req \<Rightarrow>
          if length requests \<le> root_rank req then Inl FabricError
          else (case requests ! root_rank req of
                  Inl e \<Rightarrow> Inl PeerAbsent
                | Inr root_req \<Rightarrow>
                    if sendcount root_req \<noteq> recvcount req then Inl FabricError
                    else if length (sendbuf root_req) < (rank + 1) * sendcount root_req
                    then Inl FabricError
                    else Inr (take (sendcount root_req)
                               (drop (rank * sendcount root_req) (sendbuf root_req)))))"

text \<open>
  \<^verbatim>\<open>MPI::scatter\<close> on all ranks. After the library call the code clears \<^verbatim>\<open>values\<close> and
  appends \<^verbatim>\<open>receive_buffer\<close>, which was initialised to 0 (an \<^verbatim>\<open>int\<close> written as
  \<^verbatim>\<open>MPI_UNSIGNED\<close> and converted back to \<^verbatim>\<open>uint\<close>: the same 32 bits).
\<close>

definition scatter :: "nat \<Rightarrow> nat \<Rightarrow> uint list list \<Rightarrow> rank_outcome list" where
  "scatter num_processes sending_process world =
     (let requests = map (\<lambda>r. scatter_request num_processes r (world ! r) sending_process)
                       [0..<num_processes]
      in map (\<lambda>rank.
            let values = world ! rank;
                queries = (if rank = sending_process then [Init_mpi, Init_mpi] else [Init_mpi])
            in case requests ! rank of
                 Inl e \<Rightarrow>
                   \<lparr>calls = Comm_dup # queries @ [Comm_free], vals = values, failure = Some e\<rparr>
               | Inr req \<Rightarrow>
                   (case MPI_Scatter requests rank of
                      Inl e \<Rightarrow>
                        \<lparr>calls = Comm_dup # queries @ [Scatter_call], vals = values,
                         failure = Some e\<rparr>
                    | Inr received \<Rightarrow>
                        let receive_buffer = (case received of [] \<Rightarrow> 0 | v # _ \<Rightarrow> v)
                        in \<lparr>calls = Comm_dup # queries @ [Scatter_call, Comm_free],
                            vals = [receive_buffer], failure = None\<rparr>))
           [0..<num_processes])"

text \<open>
  \<^verbatim>\<open>MPI::gather\<close> (MPI.cpp, lines 173-194): the assertion on the size of \<^verbatim>\<open>values\<close>, the
  value sent (\<^verbatim>\<open>values[process_number()]\<close>), \<^verbatim>\<open>MPI_Allgather\<close> with one element per rank
  (every rank receives the contributions of all ranks, ordered by rank), and the loop that
  copies \<^verbatim>\<open>received_values\<close> over \<^verbatim>\<open>values\<close> position by position.
\<close>

definition gather_request :: "nat \<Rightarrow> nat \<Rightarrow> uint list \<Rightarrow> error + uint" where
  "gather_request num_processes process_number values =
     (if length values \<noteq> num_processes then Inl SizeMismatch
      else Inr (values ! process_number))"

definition MPI_Allgather :: "(error + uint) list \<Rightarrow> error + uint list" where
  "MPI_Allgather requests =
     (if list_all (\<lambda>r. \<not> isl r) requests then Inr (map projr requests) else Inl PeerAbsent)"

definition gather :: "nat \<Rightarrow> uint list list \<Rightarrow> rank_outcome list" where
  "gather num_processes world =
     (let requests = map (\<lambda>r. gather_request num_processes r (world ! r)) [0..<num_processes]
      in map (\<lambda>rank.
            let values = world ! rank
            in case requests ! rank of
                 Inl e \<Rightarrow> \<lparr>calls = [Init_mpi], vals = values, failure = Some e\<rparr>
               | Inr send_value \<Rightarrow>
                   (case MPI_Allgather requests of
                      Inl e \<Rightarrow>
                        \<lparr>calls = [Init_mpi, Init_mpi, Comm_dup, Allgather_call], vals = values,
                         failure = Some e\<rparr>
                    | Inr received_values \<Rightarrow>
                        \<lparr>calls = [Init_mpi, Init_mpi, Comm_dup, Allgather_call, Comm_free],
                         vals = foldl (\<lambda>vs i. vs[i := received_values ! i]) values
                                  [0..<length values],
                         failure = None\<rparr>))
           [0..<num_processes])"

text \<open>
  \<^verbatim>\<open>MPI::global_maximum\<close> (MPI.cpp, lines 196-203): \<^verbatim>\<open>MPI_Allreduce\<close> with \<^verbatim>\<open>MPI_MAX\<close> gives
  every rank the maximum of all contributions.
\<close>

definition MPI_Allreduce_max :: "uint list \<Rightarrow> uint" where
  "MPI_Allreduce_max contributions = foldl max 0 contributions"

definition global_maximum :: "nat \<Rightarrow> uint list \<Rightarrow> (fabric_call list \<times> uint) list" where
  "global_maximum num_processes sizes =
     map (\<lambda>rank. ([Comm_dup, Allreduce_call, Comm_free],
                  MPI_Allreduce_max (map (\<lambda>r. sizes ! r) [0..<num_processes])))
       [0..<num_processes]"

text \<open>
  The build without MPI (MPI.cpp, lines 328-337), where \<^verbatim>\<open>num_processes()\<close> is 1. It
  defines no \<^verbatim>\<open>scatter\<close>.
\<close>

definition gather_without_mpi :: "uint list \<Rightarrow> error + uint list" where
  "gather_without_mpi values = Inl RequiresMPI"

definition global_maximum_without_mpi :: "uint \<Rightarrow> error + uint" where
  "global_maximum_without_mpi sz = Inl RequiresMPI"

section \<open>Mesh data of one process (dolfin/mesh/LocalMeshData.cpp)\<close>

text \<open>
  Modelled from the spec: the classes \<^verbatim>\<open>Mesh\<close>, \<^verbatim>\<open>Vertex\<close>, \<^verbatim>\<open>Cell\<close> and their iterators
  (Mesh.h, Vertex.h, Cell.h) are not among the sources. Section 6 of the specification
  lists what extraction reads from a mesh: the geometric and the topological dimension,
  the vertex and the cell count, the sequence of vertices, each with its coordinates and
  its global index, and the sequence of cells, each with its incident vertices.
  \<^verbatim>\<open>vertex->x()\<close> and \<^verbatim>\<open>cell->entities(0)\<close> return pointers, read here as functions of
  the position. Coordinates are only copied, so their type is a parameter.
\<close>

record 'c vertex =
  vertex_x :: "nat \<Rightarrow> 'c"
  vertex_index :: uint

record cell =
  num_entities0 :: uint
  entities0 :: "nat \<Rightarrow> uint"

record 'c mesh =
  geometry_dim :: uint
  topology_dim :: uint
  num_vertices :: uint
  num_cells :: uint
  mesh_vertices :: "'c vertex list"
  mesh_cells :: "cell list"

text \<open>The data members of \<^verbatim>\<open>LocalMeshData\<close> and their initial values (lines 19-24).\<close>

record 'c LocalMeshData =
  vertex_coordinates :: "'c list list"
  vertex_indices :: "uint list"
  cell_vertices :: "uint list list"
  num_global_vertices :: uint
  num_global_cells :: uint
  gdim :: uint
  tdim :: uint

definition LocalMeshData_init :: "'c LocalMeshData" where
  "LocalMeshData_init =
     \<lparr>vertex_coordinates = [], vertex_indices = [], cell_vertices = [],
      num_global_vertices = 0, num_global_cells = 0, gdim = 0, tdim = 0\<rparr>"

text \<open>\<^verbatim>\<open>LocalMeshData::clear\<close> (lines 50-59).\<close>

definition clear :: "'c LocalMeshData \<Rightarrow> 'c LocalMeshData" where
  "clear d = d\<lparr>vertex_coordinates := [], vertex_indices := [], cell_vertices := [],
               num_global_vertices := 0, num_global_cells := 0, gdim := 0, tdim := 0\<rparr>"

text \<open>
  The three loops of \<^verbatim>\<open>LocalMeshData::extract_mesh_data\<close> (lines 72-97), each appending one
  entry per vertex or cell, and the function itself (lines 61-98).
\<close>

primrec extract_coordinates :: "'c vertex list \<Rightarrow> 'c LocalMeshData \<Rightarrow> 'c LocalMeshData" where
  "extract_coordinates [] d = d"
| "extract_coordinates (v # vs) d =
     (let coordinates = map (\<lambda>i. vertex_x v i) [0..<unat (gdim d)]
      in extract_coordinates vs (d\<lparr>vertex_coordinates := vertex_coordinates d @ [coordinates]\<rparr>))"

primrec extract_indices :: "'c vertex list \<Rightarrow> 'c LocalMeshData \<Rightarrow> 'c LocalMeshData" where
  "extract_indices [] d = d"
| "extract_indices (v # vs) d =
     extract_indices vs (d\<lparr>vertex_indices := vertex_indices d @ [vertex_index v]\<rparr>)"

primrec extract_cells :: "cell list \<Rightarrow> 'c LocalMeshData \<Rightarrow> 'c LocalMeshData" where
  "extract_cells [] d = d"
| "extract_cells (c # cs) d =
     (let vertices = map (\<lambda>i. entities0 c i) [0..<unat (num_entities0 c)]
      in extract_cells cs (d\<lparr>cell_vertices := cell_vertices d @ [vertices]\<rparr>))"

definition extract_mesh_data :: "'c mesh \<Rightarrow> 'c LocalMeshData \<Rightarrow> 'c LocalMeshData" where
  "extract_mesh_data mesh d =
     (let d1 = clear d;
          d2 = d1\<lparr>gdim := geometry_dim mesh, tdim := topology_dim mesh,
                   num_global_vertices := num_vertices mesh,
                   num_global_cells := num_cells mesh\<rparr>;
          d3 = extract_coordinates (mesh_vertices mesh) d2;
          d4 = extract_indices (mesh_vertices mesh) d3
      in extract_cells (mesh_cells mesh) d4)"

text \<open>
  \<^verbatim>\<open>broadcast_mesh_data\<close> and \<^verbatim>\<open>receive_mesh_data\<close> (lines 100-112) have empty bodies.
\<close>

definition broadcast_mesh_data :: "'c LocalMeshData \<Rightarrow> 'c LocalMeshData" where
  "broadcast_mesh_data d = d"

definition receive_mesh_data :: "'c LocalMeshData \<Rightarrow> 'c LocalMeshData" where
  "receive_mesh_data d = d"

text \<open>
  Modelled from the spec: \<^verbatim>\<open>error\<close> of dolfin/log is not among the sources. Section 7 of
  the specification makes every error fatal and surfaced immediately: the call does not
  return.
\<close>

definition dolfin_error :: "error \<Rightarrow> error + unit" where
  "dolfin_error e = Inl e"

text \<open>
  The constructor \<^verbatim>\<open>LocalMeshData(const Mesh&)\<close> (lines 26-43). Its first statement is
  \<^verbatim>\<open>error("This should not be called")\<close>; \<open>distribute_mesh_data\<close> is the rest of its body,
  the branch on \<^verbatim>\<open>MPI::is_broadcaster()\<close>, which evaluates \<^verbatim>\<open>num_processes()\<close> and, with
  more than one process, \<^verbatim>\<open>process_number()\<close>.
\<close>

definition distribute_mesh_data ::
  "uint \<Rightarrow> uint \<Rightarrow> 'c mesh \<Rightarrow> 'c LocalMeshData \<Rightarrow> fabric_call list \<times> 'c LocalMeshData" where
  "distribute_mesh_data num_processes process_number mesh d =
     (if is_broadcaster num_processes process_number
      then ([Init_mpi, Init_mpi], broadcast_mesh_data (extract_mesh_data mesh d))
      else (if num_processes > 1 then [Init_mpi, Init_mpi] else [Init_mpi],
            receive_mesh_data d))"

definition LocalMeshData_of_mesh ::
  "uint \<Rightarrow> uint \<Rightarrow> 'c mesh \<Rightarrow> fabric_call list \<times> (error + 'c LocalMeshData)" where
  "LocalMeshData_of_mesh num_processes process_number mesh =
     (case dolfin_error ShouldNotBeCalled of
        Inl e \<Rightarrow> ([], Inl e)
      | Inr _ \<Rightarrow>
          (let (cs, d) = distribute_mesh_data num_processes process_number mesh LocalMeshData_init
           in (cs, Inr d)))"

text \<open>A mesh of one triangle in the plane, to evaluate the functions on.\<close>

definition triangle :: "int mesh" where
  "triangle =
     \<lparr>geometry_dim = 2, topology_dim = 2, num_vertices = 3, num_cells = 1,
      mesh_vertices =
        [\<lparr>vertex_x = (\<lambda>i. [0, 0] ! i), vertex_index = 0\<rparr>,
         \<lparr>vertex_x = (\<lambda>i. [1, 0] ! i), vertex_index = 1\<rparr>,
         \<lparr>vertex_x = (\<lambda>i. [0, 1] ! i), vertex_index = 2\<rparr>],
      mesh_cells = [\<lparr>num_entities0 = 3, entities0 = (\<lambda>i. [0, 1, 2] ! i)\<rparr>]\<rparr>"

section \<open>The partition over unbounded naturals\<close>

lemma unat_add_nowrap:
  "unat x + unat y < 2 ^ 32 \<Longrightarrow> unat (x + y :: uint) = unat x + unat y"
  using unat_add_lem [of x y] by simp

lemma unat_mult_nowrap:
  "unat x * unat y < 2 ^ 32 \<Longrightarrow> unat (x * y :: uint) = unat x * unat y"
  using unat_mult_lem [of x y] by simp

lemma unat_lt32: "unat (x :: uint) < 2 ^ 32"
  using unsigned_less [of x, where ?'a = nat] by simp

lemma low_block_bound:
  fixes a p k :: nat
  assumes "k < a mod p"
  shows "(k + 1) * (a div p + 1) \<le> a"
proof -
  have le: "a mod p * (a div p) \<le> p * (a div p)"
    by (cases "p = 0") (simp_all add: mult_le_mono1)
  have "(k + 1) * (a div p + 1) \<le> (a mod p) * (a div p + 1)"
    using assms by (intro mult_le_mono1) simp
  also have "\<dots> = (a mod p) * (a div p) + a mod p" by simp
  also have "\<dots> \<le> p * (a div p) + a mod p"
    by (rule add_le_mono1 [OF le])
  also have "\<dots> = a" by simp
  finally show ?thesis .
qed

lemma high_block_bound:
  fixes a p k :: nat
  assumes "k < p"
  shows "(k + 1) * (a div p) + a mod p \<le> a"
proof -
  have "(k + 1) * (a div p) + a mod p \<le> p * (a div p) + a mod p"
    using assms by (intro add_le_mono1 mult_le_mono1) simp
  also have "\<dots> = a" by simp
  finally show ?thesis .
qed

lemma block_first_0: "block_first a p 0 = 0"
  by (simp add: block_first_def)

lemma block_first_Suc:
  "block_first a p (Suc k) =
     block_first a p k + (if k < a mod p then a div p + 1 else a div p)"
proof (cases "Suc k < a mod p")
  case True
  then show ?thesis by (simp add: block_first_def)
next
  case False
  show ?thesis
  proof (cases "k < a mod p")
    case True
    with False have "a mod p = Suc k" by simp
    then show ?thesis by (simp add: block_first_def)
  next
    case False
    then show ?thesis by (simp add: block_first_def)
  qed
qed

lemma block_first_high:
  "a mod p \<le> k \<Longrightarrow> block_first a p k = k * (a div p) + a mod p"
  by (simp add: block_first_def)

lemma block_first_low:
  "k < a mod p \<Longrightarrow> block_first a p k = k * (a div p + 1)"
  by (simp add: block_first_def)

lemma block_first_total:
  assumes "0 < p"
  shows "block_first a p p = a"
proof -
  have "a mod p \<le> p" using assms by (simp add: less_imp_le)
  then have "block_first a p p = p * (a div p) + a mod p" by (rule block_first_high)
  then show ?thesis by simp
qed

lemma block_first_mono: "k \<le> k' \<Longrightarrow> block_first a p k \<le> block_first a p k'"
proof (induction k' rule: nat_induct_at_least [where m = k, consumes 1, case_names base Suc])
  case base
  show ?case by simp
next
  case (Suc n)
  then show ?case by (simp add: block_first_Suc)
qed

lemma block_sizes_sum:
  "(\<Sum>k<m. if k < a mod p then a div p + 1 else a div p) = block_first a p m"
  by (induction m) (simp_all add: block_first_0 block_first_Suc)

lemma block_owner_correct:
  assumes "0 < p" "i < a"
  shows "block_owner a p i < p"
    and "block_first a p (block_owner a p i) \<le> i"
    and "i < block_first a p (Suc (block_owner a p i))"
    and "i < a mod p * (a div p + 1) \<or> 0 < a div p"
proof -
  let ?n = "a div p" and ?r = "a mod p"
  have a: "a = p * ?n + ?r" by simp
  have rp: "?r < p" using assms(1) by simp
  show pos: "i < ?r * (?n + 1) \<or> 0 < ?n"
  proof (cases "?n = 0")
    case True
    then have "?r = a" using a by simp
    with True assms(2) show ?thesis by simp
  next
    case False
    then show ?thesis by simp
  qed
  show "block_owner a p i < p"
    and "block_first a p (block_owner a p i) \<le> i"
    and "i < block_first a p (Suc (block_owner a p i))"
  proof (atomize (full), cases "i < ?r * (?n + 1)")
    case True
    let ?o = "i div (?n + 1)"
    have o: "block_owner a p i = ?o" using True by (simp add: block_owner_def)
    have lt: "?o < ?r" using True by (simp add: less_mult_imp_div_less)
    have lo: "?o * (?n + 1) \<le> i" by (rule div_times_less_eq_dividend)
    have hi: "i < Suc ?o * (?n + 1)" using dividend_less_div_times [of "?n + 1" i] by simp
    have "block_first a p ?o = ?o * (?n + 1)" using lt by (simp add: block_first_def)
    moreover have "block_first a p (Suc ?o) = Suc ?o * (?n + 1)"
      using lt by (simp add: block_first_Suc block_first_def)
    ultimately show "block_owner a p i < p \<and> block_first a p (block_owner a p i) \<le> i
        \<and> i < block_first a p (Suc (block_owner a p i))"
      using o lt rp lo hi by simp
  next
    case False
    with pos have n: "0 < ?n" by simp
    define j where "j = i - ?r * (?n + 1)"
    define q where "q = j div ?n"
    have o: "block_owner a p i = ?r + q"
      using False by (simp add: block_owner_def j_def q_def)
    have i: "i = ?r * (?n + 1) + j" using False by (simp add: j_def)
    have "?r * (?n + 1) + (p - ?r) * ?n = (?r + (p - ?r)) * ?n + ?r"
      by (simp add: algebra_simps)
    also have "\<dots> = p * ?n + ?r" using rp by simp
    also have "\<dots> = a" by simp
    finally have "?r * (?n + 1) + j < ?r * (?n + 1) + (p - ?r) * ?n"
      using i assms(2) by simp
    then have "j < (p - ?r) * ?n" by simp
    then have q: "q < p - ?r" using n by (simp add: less_mult_imp_div_less q_def)
    have lo: "q * ?n \<le> j" unfolding q_def by (rule div_times_less_eq_dividend)
    have hi: "j < Suc q * ?n"
      unfolding q_def using dividend_less_div_times [OF n, of j] by simp
    have f: "block_first a p (?r + q) = (?r + q) * ?n + ?r"
      by (rule block_first_high) (rule le_add1)
    have l: "block_first a p (Suc (?r + q)) = (?r + q) * ?n + ?r + ?n"
      by (simp only: block_first_Suc f) simp
    have c1: "?r + q < p" using q by simp
    have c2: "block_first a p (?r + q) \<le> i"
      unfolding f using lo by (subst i) (simp add: algebra_simps)
    have c3: "i < block_first a p (Suc (?r + q))"
      unfolding l using hi by (subst i) (simp add: algebra_simps)
    show "block_owner a p i < p \<and> block_first a p (block_owner a p i) \<le> i
        \<and> i < block_first a p (Suc (block_owner a p i))"
      unfolding o using c1 c2 c3 by blast
  qed
qed

lemma block_unique:
  assumes "block_first a p k \<le> i" "i < block_first a p (Suc k)"
    and "block_first a p k' \<le> i" "i < block_first a p (Suc k')"
  shows "k = k'"
proof (rule ccontr)
  assume "k \<noteq> k'"
  then consider "Suc k \<le> k'" | "Suc k' \<le> k" by linarith
  then show False
  proof cases
    case 1
    from block_first_mono [OF this, of a p] assms show False by simp
  next
    case 2
    from block_first_mono [OF this, of a p] assms show False by simp
  qed
qed

lemma unat_local_range:
  assumes "k < P"
  shows "unat (fst (local_range N P k)) = block_first (unat N) (unat P) (unat k)"
    and "unat (snd (local_range N P k)) = block_first (unat N) (unat P) (Suc (unat k))"
proof -
  let ?a = "unat N" and ?p = "unat P" and ?k = "unat k"
  have n: "unat (N div P) = ?a div ?p" by (simp add: unat_div)
  have r: "unat (N mod P) = ?a mod ?p" by (simp add: unat_mod)
  have kp: "?k < ?p" using assms by (simp add: word_less_nat_alt)
  have a: "?a < 2 ^ 32" by (rule unat_lt32)
  have c: "(k < N mod P) = (?k < ?a mod ?p)" by (simp add: word_less_nat_alt r)
  show "unat (fst (local_range N P k)) = block_first ?a ?p ?k"
    and "unat (snd (local_range N P k)) = block_first ?a ?p (Suc ?k)"
  proof (atomize (full), cases "?k < ?a mod ?p")
    case True
    from low_block_bound [OF True] have b: "(?k + 1) * (?a div ?p + 1) \<le> ?a" .
    then have "?a div ?p + 1 \<le> ?a" by simp
    then have n1: "unat (N div P + 1) = ?a div ?p + 1"
      using a by (simp add: unat_add_nowrap n)
    have "?k * (?a div ?p + 1) \<le> ?a" using b by simp
    then have m: "unat (k * (N div P + 1)) = ?k * (?a div ?p + 1)"
      using a by (simp add: unat_mult_nowrap n1)
    have "?k * (?a div ?p + 1) + (?a div ?p + 1) \<le> ?a" using b by simp
    then have "unat (k * (N div P + 1) + (N div P + 1)) =
        ?k * (?a div ?p + 1) + (?a div ?p + 1)"
      using a by (simp add: unat_add_nowrap m n1)
    then have s: "unat (k * (N div P + 1) + N div P + 1) =
        ?k * (?a div ?p + 1) + (?a div ?p + 1)"
      by (simp add: add.assoc)
    have "unat (fst (local_range N P k)) = ?k * (?a div ?p + 1)"
      using True c m by (simp add: local_range_def Let_def)
    moreover have "unat (snd (local_range N P k)) = ?k * (?a div ?p + 1) + (?a div ?p + 1)"
      using True c s by (simp add: local_range_def Let_def)
    ultimately show "unat (fst (local_range N P k)) = block_first ?a ?p ?k
        \<and> unat (snd (local_range N P k)) = block_first ?a ?p (Suc ?k)"
      using True by (simp add: block_first_Suc block_first_low)
  next
    case False
    from high_block_bound [OF kp] have b: "(?k + 1) * (?a div ?p) + ?a mod ?p \<le> ?a" .
    then have "?k * (?a div ?p) \<le> ?a" by simp
    then have m: "unat (k * (N div P)) = ?k * (?a div ?p)"
      using a by (simp add: unat_mult_nowrap n)
    have "?k * (?a div ?p) + ?a mod ?p \<le> ?a" using b by simp
    then have f: "unat (k * (N div P) + N mod P) = ?k * (?a div ?p) + ?a mod ?p"
      using a by (simp add: unat_add_nowrap m r)
    have "?k * (?a div ?p) + ?a mod ?p + ?a div ?p \<le> ?a" using b by simp
    then have s: "unat (k * (N div P) + N mod P + N div P) =
        ?k * (?a div ?p) + ?a mod ?p + ?a div ?p"
      using a by (simp add: unat_add_nowrap f n)
    have "unat (fst (local_range N P k)) = ?k * (?a div ?p) + ?a mod ?p"
      using False c f by (simp add: local_range_def Let_def)
    moreover have "unat (snd (local_range N P k)) = ?k * (?a div ?p) + ?a mod ?p + ?a div ?p"
      using False c s by (simp add: local_range_def Let_def)
    ultimately show "unat (fst (local_range N P k)) = block_first ?a ?p ?k
        \<and> unat (snd (local_range N P k)) = block_first ?a ?p (Suc ?k)"
      using False by (simp add: block_first_Suc block_first_high)
  qed
qed

lemma unat_index_owner:
  assumes "P \<noteq> 0" "i < N"
  shows "\<exists>w. index_owner i N P = Inr w \<and> unat w = block_owner (unat N) (unat P) (unat i)"
proof -
  let ?a = "unat N" and ?p = "unat P" and ?i = "unat i"
  let ?n = "?a div ?p" and ?r = "?a mod ?p"
  have n: "unat (N div P) = ?n" by (simp add: unat_div)
  have r: "unat (N mod P) = ?r" by (simp add: unat_mod)
  have p: "0 < ?p" using assms(1) by (simp add: unat_gt_0)
  have ia: "?i < ?a" using assms(2) by (simp add: word_less_nat_alt)
  have a: "?a < 2 ^ 32" by (rule unat_lt32)
  note oc = block_owner_correct [OF p ia]
  have rn: "unat (N mod P * (N div P + 1)) = ?r * (?n + 1)"
  proof (cases "?r = 0")
    case True
    then have "N mod P = 0" using r by (simp add: unat_eq_0)
    with True show ?thesis by simp
  next
    case False
    then have "?r - 1 < ?r" by simp
    from low_block_bound [OF this] False have b: "?r * (?n + 1) \<le> ?a" by simp
    then have "?n + 1 \<le> ?a" using False by (cases "?r") simp_all
    then have n1: "unat (N div P + 1) = ?n + 1"
      using a by (simp add: unat_add_nowrap n)
    show ?thesis using a b by (simp add: unat_mult_nowrap n1 r)
  qed
  have c: "(i < N mod P * (N div P + 1)) = (?i < ?r * (?n + 1))"
    by (simp add: word_less_nat_alt rn)
  show ?thesis
  proof (cases "?i < ?r * (?n + 1)")
    case True
    then have "?r \<noteq> 0" by (cases "?r = 0") simp_all
    then have "?r - 1 < ?r" by simp
    from low_block_bound [OF this] \<open>?r \<noteq> 0\<close> have b: "?r * (?n + 1) \<le> ?a" by simp
    then have "?n + 1 \<le> ?a" using \<open>?r \<noteq> 0\<close> by (cases "?r") simp_all
    then have n1: "unat (N div P + 1) = ?n + 1"
      using a by (simp add: unat_add_nowrap n)
    have "unat (i div (N div P + 1)) = ?i div (?n + 1)" by (simp add: unat_div n1)
    then show ?thesis
      using True c assms(2) by (simp add: index_owner_def Let_def block_owner_def)
  next
    case False
    with oc(4) have n0: "0 < ?n" by simp
    then have nz: "N div P \<noteq> 0" using n by (auto simp: unat_eq_0)
    have le: "N mod P * (N div P + 1) \<le> i" using False c by simp
    have sub: "unat (i - N mod P * (N div P + 1)) = ?i - ?r * (?n + 1)"
      using le by (simp add: unat_sub rn)
    have q: "unat ((i - N mod P * (N div P + 1)) div (N div P)) = (?i - ?r * (?n + 1)) div ?n"
      by (simp add: unat_div sub n)
    have "block_owner ?a ?p ?i = ?r + (?i - ?r * (?n + 1)) div ?n"
      using False by (simp add: block_owner_def)
    with oc(1) have "?r + (?i - ?r * (?n + 1)) div ?n < ?p" by simp
    moreover have "?p < 2 ^ 32" by (rule unat_lt32)
    ultimately have "unat (N mod P + (i - N mod P * (N div P + 1)) div (N div P)) =
        ?r + (?i - ?r * (?n + 1)) div ?n"
      by (simp add: unat_add_nowrap q r)
    then show ?thesis
      using False c assms(2) nz by (simp add: index_owner_def Let_def block_owner_def)
  qed
qed

lemma owner_in_range:
  assumes "P \<noteq> 0" "i < N"
  shows "\<exists>r. index_owner i N P = Inr r \<and> r < P
          \<and> fst (local_range N P r) \<le> i \<and> i < snd (local_range N P r)"
proof -
  let ?a = "unat N" and ?p = "unat P" and ?i = "unat i"
  have p: "0 < ?p" using assms(1) by (simp add: unat_gt_0)
  have ia: "?i < ?a" using assms(2) by (simp add: word_less_nat_alt)
  note oc = block_owner_correct [OF p ia]
  from unat_index_owner [OF assms] obtain w
    where w: "index_owner i N P = Inr w" and u: "unat w = block_owner ?a ?p ?i" by blast
  have wP: "w < P" using oc(1) u by (simp add: word_less_nat_alt)
  note lr = unat_local_range [OF wP, of N]
  have "fst (local_range N P w) \<le> i" using oc(2) u lr(1) by (simp add: word_le_nat_alt)
  moreover have "i < snd (local_range N P w)"
    using oc(3) u lr(2) by (simp add: word_less_nat_alt)
  ultimately show ?thesis using w wP by blast
qed

lemma range_owner_unique:
  assumes "r < P" "fst (local_range N P r) \<le> i" "i < snd (local_range N P r)"
    and "r' < P" "fst (local_range N P r') \<le> i" "i < snd (local_range N P r')"
  shows "r = r'"
proof -
  note a = unat_local_range [OF assms(1), of N] and b = unat_local_range [OF assms(4), of N]
  have "unat r = unat r'"
    using assms(2,3,5,6) a b
    by (intro block_unique [of "unat N" "unat P" _ "unat i"])
       (simp_all add: word_le_nat_alt word_less_nat_alt)
  then show ?thesis by (rule word_unat_eq_iff [THEN iffD2])
qed

lemma unat_range_size:
  assumes "k < P"
  shows "unat (snd (local_range N P k) - fst (local_range N P k)) =
     (if unat k < unat N mod unat P then unat N div unat P + 1 else unat N div unat P)"
proof -
  note lr = unat_local_range [OF assms, of N]
  have "fst (local_range N P k) \<le> snd (local_range N P k)"
    using lr by (simp add: word_le_nat_alt block_first_Suc)
  then have "unat (snd (local_range N P k) - fst (local_range N P k)) =
      block_first (unat N) (unat P) (Suc (unat k)) - block_first (unat N) (unat P) (unat k)"
    using lr by (simp add: unat_sub)
  then show ?thesis by (simp add: block_first_Suc)
qed

lemma ceil_div_nat:
  fixes a p :: nat
  assumes p: "0 < p" and r: "a mod p \<noteq> 0"
  shows "(a + p - 1) div p = a div p + 1"
proof -
  define n where "n = a div p"
  define m where "m = a mod p - 1"
  have m: "a mod p = Suc m" using r by (simp add: m_def)
  have "m < p" using p m mod_less_divisor [OF p, of a] by simp
  have "a = n * p + Suc m" unfolding n_def m [symmetric] by simp
  then have "a + p - 1 = m + (n + 1) * p" by (simp add: algebra_simps)
  then have "(a + p - 1) div p = (m + (n + 1) * p) div p" by simp
  also have "\<dots> = (n + 1) + m div p" by (rule div_mult_self1) (use p in simp)
  also have "\<dots> = n + 1" using \<open>m < p\<close> by simp
  finally show ?thesis by (simp add: n_def)
qed

lemma range_sizes_sum:
  assumes "P \<noteq> 0"
  shows "(\<Sum>k<unat P. unat (snd (local_range N P (of_nat k)) - fst (local_range N P (of_nat k))))
           = unat N"
proof -
  have p: "0 < unat P" using assms by (simp add: unat_gt_0)
  have "(\<Sum>k<unat P. unat (snd (local_range N P (of_nat k)) - fst (local_range N P (of_nat k))))
      = (\<Sum>k<unat P. if k < unat N mod unat P then unat N div unat P + 1 else unat N div unat P)"
  proof (rule sum.cong [OF refl])
    fix k assume "k \<in> {..<unat P}"
    then have k: "k < unat P" by simp
    moreover have "unat P < 2 ^ 32" by (rule unat_lt32)
    ultimately have u: "unat (of_nat k :: uint) = k" by (simp add: unat_of_nat)
    then have "(of_nat k :: uint) < P" using k by (simp add: word_less_nat_alt)
    from unat_range_size [OF this, of N] u
    show "unat (snd (local_range N P (of_nat k)) - fst (local_range N P (of_nat k))) =
        (if k < unat N mod unat P then unat N div unat P + 1 else unat N div unat P)"
      by simp
  qed
  also have "\<dots> = block_first (unat N) (unat P) (unat P)" by (rule block_sizes_sum)
  also have "\<dots> = unat N" by (rule block_first_total [OF p])
  finally show ?thesis .
qed

lemma range_first_rank:
  assumes "P \<noteq> 0"
  shows "fst (local_range N P 0) = 0"
proof -
  have "(0 :: uint) < P" using assms by (simp add: word_greater_zero_iff)
  from unat_local_range(1) [OF this, of N] show ?thesis
    by (simp add: block_first_0 unat_eq_0)
qed

lemma range_last_rank:
  assumes "P \<noteq> 0"
  shows "snd (local_range N P (P - 1)) = N"
proof -
  have p: "0 < unat P" using assms by (simp add: unat_gt_0)
  have u: "unat (P - 1) = unat P - 1" using assms by (rule unat_minus_one)
  have l: "P - 1 < P" using p u by (simp add: word_less_nat_alt)
  have "Suc (unat (P - 1)) = unat P" using p u by simp
  with unat_local_range(2) [OF l, of N] block_first_total [OF p, of "unat N"]
  have "unat (snd (local_range N P (P - 1))) = unat N" by simp
  then show ?thesis by (rule word_unat_eq_iff [THEN iffD2])
qed

lemma range_adjacent:
  assumes P0: "P \<noteq> 0" and "k < P - 1"
  shows "snd (local_range N P k) = fst (local_range N P (k + 1))"
proof -
  have "unat k < unat (P - 1)" using assms by (simp add: word_less_nat_alt)
  then have kk: "Suc (unat k) < unat P" using P0 by (simp add: unat_minus_one)
  moreover have "unat P < 2 ^ 32" by (rule unat_lt32)
  ultimately have u: "unat (k + 1) = Suc (unat k)" by (simp add: unat_add_nowrap)
  have k: "k < P" using kk by (simp add: word_less_nat_alt)
  have k1: "k + 1 < P" using kk u by (simp add: word_less_nat_alt)
  from unat_local_range(2) [OF k, of N] unat_local_range(1) [OF k1, of N] u
  have "unat (snd (local_range N P k)) = unat (fst (local_range N P (k + 1)))" by simp
  then show ?thesis by (rule word_unat_eq_iff [THEN iffD2])
qed

lemma range_ordered:
  assumes "k < P"
  shows "fst (local_range N P k) \<le> snd (local_range N P k)"
  using unat_local_range [OF assms, of N] by (simp add: word_le_nat_alt block_first_Suc)

lemma range_size_ceil_floor:
  assumes "k < P"
  shows "unat (snd (local_range N P k) - fst (local_range N P k)) =
     (if k < N mod P then (unat N + unat P - 1) div unat P else unat N div unat P)"
proof -
  have c: "(k < N mod P) = (unat k < unat N mod unat P)"
    by (simp add: word_less_nat_alt unat_mod)
  show ?thesis
  proof (cases "unat k < unat N mod unat P")
    case True
    then have "unat N mod unat P \<noteq> 0" by simp
    moreover have "0 < unat P" using assms by (cases "unat P = 0") (simp_all add: word_less_nat_alt)
    ultimately have "(unat N + unat P - 1) div unat P = unat N div unat P + 1"
      by (intro ceil_div_nat)
    with True c unat_range_size [OF assms, of N] show ?thesis by simp
  next
    case False
    with c unat_range_size [OF assms, of N] show ?thesis by simp
  qed
qed

lemma range_within_total:
  assumes "k < P"
  shows "snd (local_range N P k) \<le> N"
proof -
  have "Suc (unat k) \<le> unat P" using assms by (simp add: word_less_nat_alt)
  from block_first_mono [OF this, of "unat N" "unat P"]
  have "block_first (unat N) (unat P) (Suc (unat k)) \<le> block_first (unat N) (unat P) (unat P)" .
  moreover have "0 < unat P" using assms by (cases "unat P = 0") (simp_all add: word_less_nat_alt)
  ultimately have "block_first (unat N) (unat P) (Suc (unat k)) \<le> unat N"
    by (simp add: block_first_total)
  then show ?thesis using unat_local_range(2) [OF assms, of N] by (simp add: word_le_nat_alt)
qed

lemma range_sizes_balanced:
  assumes "k < P" "k' < P"
  shows "unat (snd (local_range N P k) - fst (local_range N P k))
       \<le> unat (snd (local_range N P k') - fst (local_range N P k')) + 1"
  using unat_range_size [OF assms(1), of N] unat_range_size [OF assms(2), of N] by simp

lemma range_exact_cover:
  assumes "P \<noteq> 0" "i < N"
  shows "\<exists>!k. k < P \<and> fst (local_range N P k) \<le> i \<and> i < snd (local_range N P k)"
proof -
  from owner_in_range [OF assms] obtain r
    where r: "r < P" "fst (local_range N P r) \<le> i" "i < snd (local_range N P r)" by blast
  show ?thesis
  proof (rule ex1I [of _ r])
    show "r < P \<and> fst (local_range N P r) \<le> i \<and> i < snd (local_range N P r)"
      using r by simp
  next
    fix k assume "k < P \<and> fst (local_range N P k) \<le> i \<and> i < snd (local_range N P k)"
    then show "k = r" using range_owner_unique [OF r, of k] by simp
  qed
qed

section \<open>The collectives on all ranks\<close>

lemma copy_loop_prefix:
  "n \<le> length vs \<Longrightarrow> length rv = length vs \<Longrightarrow>
     foldl (\<lambda>vs i. vs[i := rv ! i]) vs [0..<n] = take n rv @ drop n vs"
proof (induction n)
  case 0
  show ?case by simp
next
  case (Suc n)
  then have "foldl (\<lambda>vs i. vs[i := rv ! i]) vs [0..<Suc n] = (take n rv @ drop n vs)[n := rv ! n]"
    by simp
  also have "\<dots> = take n rv @ (drop n vs)[0 := rv ! n]"
    using Suc.prems by (simp add: list_update_append)
  also have "\<dots> = take n rv @ rv ! n # drop (Suc n) vs"
    using Suc.prems by (simp add: Cons_nth_drop_Suc [symmetric])
  also have "\<dots> = take (Suc n) rv @ drop (Suc n) vs"
    using Suc.prems by (simp add: take_Suc_conv_app_nth)
  finally show ?case .
qed

lemma copy_loop_all:
  "length rv = length vs \<Longrightarrow> foldl (\<lambda>vs i. vs[i := rv ! i]) vs [0..<length vs] = rv"
  using copy_loop_prefix [of "length vs" vs rv] by simp

lemma gather_size_violation:
  assumes "k < P" "length (world ! k) \<noteq> P"
  shows "failure (gather P world ! k) = Some SizeMismatch"
    and "vals (gather P world ! k) = world ! k"
    and "calls (gather P world ! k) = [Init_mpi]"
  using assms by (simp_all add: gather_def gather_request_def Let_def)

lemma gather_all_sized:
  assumes "\<forall>k<P. length (world ! k) = P" "k < P"
  shows "gather P world ! k =
     \<lparr>calls = [Init_mpi, Init_mpi, Comm_dup, Allgather_call, Comm_free],
      vals = map (\<lambda>j. world ! j ! j) [0..<P], failure = None\<rparr>"
proof -
  have req: "map (\<lambda>r. gather_request P r (world ! r)) [0..<P]
      = map (\<lambda>r. Inr (world ! r ! r)) [0..<P]"
    using assms(1) by (simp add: gather_request_def)
  have ag: "MPI_Allgather (map (\<lambda>r. Inr (world ! r ! r)) [0..<P])
      = Inr (map (\<lambda>j. world ! j ! j) [0..<P])"
    by (simp add: MPI_Allgather_def list_all_iff comp_def)
  have len: "length (map (\<lambda>j. world ! j ! j) [0..<P]) = length (world ! k)"
    using assms by simp
  show ?thesis
    using assms(2) copy_loop_all [OF len]
    by (simp add: gather_def Let_def req ag)
qed

lemma scatter_size_mismatch:
  assumes "sender < P" "length (world ! sender) \<noteq> P" "k < P"
  shows "vals (scatter P sender world ! k) = world ! k"
    and "failure (scatter P sender world ! k) =
           Some (if k = sender then SizeMismatch else PeerAbsent)"
    and "k = sender \<Longrightarrow> calls (scatter P sender world ! k) =
           [Comm_dup, Init_mpi, Init_mpi, Comm_free]"
  using assms
  by (simp_all add: scatter_def scatter_request_def MPI_Scatter_def Let_def)

lemma scatter_count_mismatch:
  assumes "2 \<le> P" "sender < P" "length (world ! sender) = P" "k < P"
  shows "failure (scatter P sender world ! k) = Some FabricError"
    and "vals (scatter P sender world ! k) = world ! k"
  using assms
  by (simp_all add: scatter_def scatter_request_def MPI_Scatter_def Let_def)

section \<open>Extraction\<close>

lemma extract_coordinates_eq:
  "extract_coordinates vs d =
     d\<lparr>vertex_coordinates :=
         vertex_coordinates d @ map (\<lambda>v. map (vertex_x v) [0..<unat (gdim d)]) vs\<rparr>"
  by (induction vs arbitrary: d) (simp_all add: Let_def)

lemma extract_indices_eq:
  "extract_indices vs d = d\<lparr>vertex_indices := vertex_indices d @ map vertex_index vs\<rparr>"
  by (induction vs arbitrary: d) simp_all

lemma extract_cells_eq:
  "extract_cells cs d =
     d\<lparr>cell_vertices :=
         cell_vertices d @ map (\<lambda>c. map (entities0 c) [0..<unat (num_entities0 c)]) cs\<rparr>"
  by (induction cs arbitrary: d) (simp_all add: Let_def)

lemma extract_mesh_data_eq:
  "extract_mesh_data mesh d =
     \<lparr>vertex_coordinates =
        map (\<lambda>v. map (vertex_x v) [0..<unat (geometry_dim mesh)]) (mesh_vertices mesh),
      vertex_indices = map vertex_index (mesh_vertices mesh),
      cell_vertices =
        map (\<lambda>c. map (entities0 c) [0..<unat (num_entities0 c)]) (mesh_cells mesh),
      num_global_vertices = num_vertices mesh,
      num_global_cells = num_cells mesh,
      gdim = geometry_dim mesh,
      tdim = topology_dim mesh\<rparr>"
  by (simp add: extract_mesh_data_def clear_def Let_def extract_coordinates_eq
      extract_indices_eq extract_cells_eq)

lemma triangle_extracted:
  "extract_mesh_data triangle d =
     \<lparr>vertex_coordinates = [[0, 0], [1, 0], [0, 1]], vertex_indices = [0, 1, 2],
      cell_vertices = [[0, 1, 2]], num_global_vertices = 3, num_global_cells = 1,
      gdim = 2, tdim = 2\<rparr>"
  by (simp add: extract_mesh_data_eq triangle_def upt_rec)

section \<open>Claims\<close>

text \<open>
  C1. For every \<open>N\<close>, every \<open>P \<ge> 1\<close> and every global index \<open>i < N\<close>, \<open>index_owner\<close> returns
  a rank \<open>r < P\<close> whose \<open>local_range\<close> contains \<open>i\<close>, and no other rank's range contains \<open>i\<close>.
\<close>

theorem index_owner_unique_rank:
  assumes "P \<noteq> 0" "i < N"
  shows "\<exists>r. index_owner i N P = Inr r \<and> r < P
          \<and> fst (local_range N P r) \<le> i \<and> i < snd (local_range N P r)
          \<and> (\<forall>r'. r' < P \<and> fst (local_range N P r') \<le> i \<and> i < snd (local_range N P r')
                \<longrightarrow> r' = r)"
proof -
  from owner_in_range [OF assms] obtain r
    where r: "index_owner i N P = Inr r" "r < P"
      "fst (local_range N P r) \<le> i" "i < snd (local_range N P r)" by blast
  have "\<forall>r'. r' < P \<and> fst (local_range N P r') \<le> i \<and> i < snd (local_range N P r')
          \<longrightarrow> r' = r"
    using range_owner_unique [OF r(2-4)] by blast
  with r show ?thesis by blast
qed

theorem index_owner_unique_rank_witness:
  "(3 :: uint) \<noteq> 0 \<and> (6 :: uint) < 10 \<and> index_owner 6 10 3 = Inr 1
     \<and> local_range 10 3 1 = (4, 7) \<and> local_range 10 3 0 = (0, 4)
     \<and> local_range 10 3 2 = (7, 10)"
proof -
  have h: "(3 :: uint) \<noteq> 0" "(6 :: uint) < 10" by simp_all
  have e: "index_owner 6 10 3 = Inr 1" "local_range 10 3 1 = (4, 7)"
      "local_range 10 3 0 = (0, 4)" "local_range 10 3 2 = (7, 10)"
    by (simp_all add: index_owner_def local_range_def Let_def)
  from index_owner_unique_rank [OF h] e h show ?thesis by simp
qed

text \<open>
  C2. For every \<open>N\<close> and \<open>P \<ge> 1\<close> the ranges of the ranks \<open>0, \<dots>, P - 1\<close> tile \<open>[0, N)\<close>: the
  first starts at 0, each ends where the next starts, the last ends at \<open>N\<close>, every index
  below \<open>N\<close> lies in exactly one of them, and the sizes add up to \<open>N\<close>. The ranks below
  \<open>N mod P\<close> hold \<open>\<lceil>N / P\<rceil>\<close> indices and the others \<open>\<lfloor>N / P\<rfloor>\<close>, so two sizes differ by at
  most one.
\<close>

theorem local_range_tiles:
  assumes "P \<noteq> 0"
  shows "fst (local_range N P 0) = 0
     \<and> snd (local_range N P (P - 1)) = N
     \<and> (\<forall>k. k < P - 1 \<longrightarrow> snd (local_range N P k) = fst (local_range N P (k + 1)))
     \<and> (\<forall>k. k < P \<longrightarrow> fst (local_range N P k) \<le> snd (local_range N P k)
                        \<and> snd (local_range N P k) \<le> N)
     \<and> (\<forall>i. i < N \<longrightarrow>
           (\<exists>!k. k < P \<and> fst (local_range N P k) \<le> i \<and> i < snd (local_range N P k)))
     \<and> (\<Sum>k<unat P. unat (snd (local_range N P (of_nat k)) - fst (local_range N P (of_nat k))))
           = unat N
     \<and> (\<forall>k. k < P \<longrightarrow>
           unat (snd (local_range N P k) - fst (local_range N P k)) =
             (if k < N mod P then (unat N + unat P - 1) div unat P else unat N div unat P))
     \<and> (\<forall>k k'. k < P \<and> k' < P \<longrightarrow>
           unat (snd (local_range N P k) - fst (local_range N P k))
             \<le> unat (snd (local_range N P k') - fst (local_range N P k')) + 1)"
proof (intro conjI allI impI)
  show "fst (local_range N P 0) = 0" by (rule range_first_rank [OF assms])
  show "snd (local_range N P (P - 1)) = N" by (rule range_last_rank [OF assms])
  show "snd (local_range N P k) = fst (local_range N P (k + 1))" if "k < P - 1" for k
    by (rule range_adjacent [OF assms that])
  show "fst (local_range N P k) \<le> snd (local_range N P k)" if "k < P" for k
    by (rule range_ordered [OF that])
  show "snd (local_range N P k) \<le> N" if "k < P" for k
    by (rule range_within_total [OF that])
  show "\<exists>!k. k < P \<and> fst (local_range N P k) \<le> i \<and> i < snd (local_range N P k)"
    if "i < N" for i
    by (rule range_exact_cover [OF assms that])
  show "(\<Sum>k<unat P. unat (snd (local_range N P (of_nat k)) - fst (local_range N P (of_nat k))))
      = unat N"
    by (rule range_sizes_sum [OF assms])
  show "unat (snd (local_range N P k) - fst (local_range N P k)) =
      (if k < N mod P then (unat N + unat P - 1) div unat P else unat N div unat P)"
    if "k < P" for k
    by (rule range_size_ceil_floor [OF that])
  show "unat (snd (local_range N P k) - fst (local_range N P k))
      \<le> unat (snd (local_range N P k') - fst (local_range N P k')) + 1"
    if "k < P \<and> k' < P" for k k'
    using that by (intro range_sizes_balanced) simp_all
qed

theorem local_range_tiles_witness:
  "(3 :: uint) \<noteq> 0
   \<and> local_range 10 3 0 = (0, 4) \<and> local_range 10 3 1 = (4, 7) \<and> local_range 10 3 2 = (7, 10)
   \<and> (\<Sum>k<unat (3 :: uint).
         unat (snd (local_range 10 3 (of_nat k)) - fst (local_range 10 3 (of_nat k))))
        = unat (10 :: uint)"
proof -
  have h: "(3 :: uint) \<noteq> 0" by simp
  have e: "local_range 10 3 0 = (0, 4)" "local_range 10 3 1 = (4, 7)"
      "local_range 10 3 2 = (7, 10)"
    by (simp_all add: local_range_def Let_def)
  from local_range_tiles [OF h, of 10] h e show ?thesis by simp
qed

text \<open>
  C3. For every \<open>N\<close> and \<open>P\<close>, \<open>index_owner\<close> called with an index \<open>i \<ge> N\<close> fails with
  \<open>OutOfRange\<close> (the assertion \<^verbatim>\<open>index < N\<close>); it returns no rank.
\<close>

theorem index_owner_out_of_range:
  assumes "N \<le> i"
  shows "index_owner i N P = Inl OutOfRange"
  using assms by (simp add: index_owner_def not_less)

theorem index_owner_out_of_range_witness:
  "(10 :: uint) \<le> 12 \<and> index_owner 12 10 3 = Inl OutOfRange"
  using index_owner_out_of_range [of 10 12 3] by simp

text \<open>
  C4. Scatter of one value per rank. A sender whose array has a length other than \<open>P\<close>
  fails with \<open>SizeMismatch\<close> before any value is sent (\<open>scatter_size_mismatch\<close>). With an
  array of length \<open>P\<close> every rank should end with the single value the sender held at its
  position. In a group of two processes the code does not: it passes the length of the
  array, 2, as the number of elements sent to each rank, while each rank receives 1, so the
  library rejects the call on both ranks and no rank ends with its value.
\<close>

theorem scatter_two_processes:
  "scatter_request 2 0 [10, 20] 0 =
     Inr \<lparr>sendbuf = [10, 20], sendcount = 2, recvcount = 1, root_rank = 0\<rparr>
   \<and> scatter_request 2 1 [] 0 =
     Inr \<lparr>sendbuf = [], sendcount = 0, recvcount = 1, root_rank = 0\<rparr>
   \<and> scatter 2 0 [[10, 20], []] =
     [\<lparr>calls = [Comm_dup, Init_mpi, Init_mpi, Scatter_call], vals = [10, 20],
       failure = Some FabricError\<rparr>,
      \<lparr>calls = [Comm_dup, Init_mpi, Scatter_call], vals = [],
       failure = Some FabricError\<rparr>]"
  by (simp add: scatter_def scatter_request_def MPI_Scatter_def Let_def upt_rec)

text \<open>
  C5. All-gather. A rank whose array has a length other than \<open>P\<close> fails with
  \<open>SizeMismatch\<close> and keeps its array. When every rank's array has length \<open>P\<close>, every rank
  returns normally with the same array: position \<open>j\<close> holds the value rank \<open>j\<close> held in its
  own slot \<open>j\<close>.
\<close>

theorem gather_contract:
  "(\<forall>k<P. length (world ! k) \<noteq> P \<longrightarrow>
       failure (gather P world ! k) = Some SizeMismatch \<and> vals (gather P world ! k) = world ! k)
   \<and> ((\<forall>k<P. length (world ! k) = P) \<longrightarrow>
        gather P world =
          map (\<lambda>k. \<lparr>calls = [Init_mpi, Init_mpi, Comm_dup, Allgather_call, Comm_free],
                    vals = map (\<lambda>j. world ! j ! j) [0..<P], failure = None\<rparr>) [0..<P])"
proof (intro conjI allI impI)
  fix k assume "k < P" "length (world ! k) \<noteq> P"
  then show "failure (gather P world ! k) = Some SizeMismatch"
    and "vals (gather P world ! k) = world ! k"
    by (rule gather_size_violation)+
next
  assume a: "\<forall>k<P. length (world ! k) = P"
  show "gather P world =
      map (\<lambda>k. \<lparr>calls = [Init_mpi, Init_mpi, Comm_dup, Allgather_call, Comm_free],
                vals = map (\<lambda>j. world ! j ! j) [0..<P], failure = None\<rparr>) [0..<P]"
  proof (rule nth_equalityI)
    show "length (gather P world) = length (map (\<lambda>k. \<lparr>calls = [Init_mpi, Init_mpi, Comm_dup, Allgather_call, Comm_free],
                vals = map (\<lambda>j. world ! j ! j) [0..<P], failure = None\<rparr>) [0..<P])"
      by (simp add: gather_def Let_def)
  next
    fix i assume "i < length (gather P world)"
    then have "i < P" by (simp add: gather_def Let_def)
    with gather_all_sized [OF a this] show "gather P world ! i = map (\<lambda>k. \<lparr>calls = [Init_mpi, Init_mpi, Comm_dup, Allgather_call, Comm_free],
                vals = map (\<lambda>j. world ! j ! j) [0..<P], failure = None\<rparr>) [0..<P] ! i"
      by simp
  qed
qed

theorem gather_contract_witness:
  "gather 2 [[1, 2], [3, 4]] =
     [\<lparr>calls = [Init_mpi, Init_mpi, Comm_dup, Allgather_call, Comm_free],
       vals = [1, 4], failure = None\<rparr>,
      \<lparr>calls = [Init_mpi, Init_mpi, Comm_dup, Allgather_call, Comm_free],
       vals = [1, 4], failure = None\<rparr>]
   \<and> failure (gather 2 [[1, 2], [3]] ! 1) = Some SizeMismatch
   \<and> vals (gather 2 [[1, 2], [3]] ! 1) = [3]"
proof -
  have a: "\<forall>k<2. length ([[1, 2], [3, 4 :: uint]] ! k) = 2"
    by (simp add: less_Suc_eq numeral_2_eq_2)
  have b: "(1 :: nat) < 2" "length ([[1, 2], [3 :: uint]] ! 1) \<noteq> 2" by simp_all
  have u: "[0..<2] = [0, 1]" by (simp add: upt_rec)
  from gather_contract [of 2 "[[1, 2], [3, 4]]"] a
  have "gather 2 [[1, 2], [3, 4]] =
     map (\<lambda>k. \<lparr>calls = [Init_mpi, Init_mpi, Comm_dup, Allgather_call, Comm_free],
                vals = map (\<lambda>j. [[1, 2], [3, 4]] ! j ! j) [0..<2], failure = None\<rparr>) [0..<2]"
    by blast
  moreover from gather_contract [of 2 "[[1, 2], [3]]"] b
  have "failure (gather 2 [[1, 2], [3]] ! 1) = Some SizeMismatch
      \<and> vals (gather 2 [[1, 2], [3]] ! 1) = [[1, 2], [3]] ! 1"
    by blast
  ultimately show ?thesis by (simp add: u)
qed

text \<open>
  C6, as the code has it. With a single process no collective short-circuits: scatter,
  all-gather and all-reduce-max each duplicate the communicator and make their call into
  the library, whose result makes scatter and all-gather a copy and all-reduce-max the
  identity. In the build without MPI all-gather and all-reduce-max fail with
  \<open>RequiresMPI\<close>.
\<close>

theorem single_process_collectives:
  "scatter 1 0 [[v]] =
     [\<lparr>calls = [Comm_dup, Init_mpi, Init_mpi, Scatter_call, Comm_free], vals = [v],
       failure = None\<rparr>]
   \<and> gather 1 [[v]] =
     [\<lparr>calls = [Init_mpi, Init_mpi, Comm_dup, Allgather_call, Comm_free], vals = [v],
       failure = None\<rparr>]
   \<and> global_maximum 1 [s] = [([Comm_dup, Allreduce_call, Comm_free], s)]
   \<and> gather_without_mpi values = Inl RequiresMPI
   \<and> global_maximum_without_mpi s = Inl RequiresMPI"
  by (simp add: scatter_def scatter_request_def MPI_Scatter_def gather_def gather_request_def
      MPI_Allgather_def global_maximum_def MPI_Allreduce_max_def gather_without_mpi_def
      global_maximum_without_mpi_def Let_def max_def)

text \<open>
  C6 as stated fails: with one process each collective of the MPI build calls into the
  library, and those of the build without MPI fail.
\<close>

theorem single_process_fabric_counterexample:
  "calls (scatter 1 0 [[7]] ! 0) \<noteq> []
   \<and> calls (gather 1 [[7]] ! 0) \<noteq> []
   \<and> fst (global_maximum 1 [7] ! 0) \<noteq> []
   \<and> gather_without_mpi [7] = Inl RequiresMPI
   \<and> global_maximum_without_mpi 7 = Inl RequiresMPI"
  by (simp add: scatter_def scatter_request_def MPI_Scatter_def gather_def gather_request_def
      MPI_Allgather_def global_maximum_def gather_without_mpi_def
      global_maximum_without_mpi_def Let_def)

text \<open>
  C7, as the code has it. Constructing the local record from a mesh fails with
  \<open>ShouldNotBeCalled\<close> on every rank of every group, the single-process group included,
  before any call into the library; no record is produced.
\<close>

theorem LocalMeshData_of_mesh_fails:
  "LocalMeshData_of_mesh P k mesh = ([], Inl ShouldNotBeCalled)"
  by (simp add: LocalMeshData_of_mesh_def dolfin_error_def)

text \<open>
  C7 as stated fails on the triangle with one process: the constructor does not succeed,
  and the statements after its guard leave the initial, empty record, not the extracted
  one.
\<close>

theorem single_process_record_counterexample:
  "LocalMeshData_of_mesh 1 0 triangle = ([], Inl ShouldNotBeCalled)
   \<and> snd (LocalMeshData_of_mesh 1 0 triangle)
       \<noteq> Inr (extract_mesh_data triangle LocalMeshData_init)
   \<and> snd (distribute_mesh_data 1 0 triangle LocalMeshData_init) = LocalMeshData_init
   \<and> snd (distribute_mesh_data 1 0 triangle LocalMeshData_init)
       \<noteq> extract_mesh_data triangle LocalMeshData_init"
  by (simp add: LocalMeshData_of_mesh_def dolfin_error_def distribute_mesh_data_def
      is_broadcaster_def receive_mesh_data_def triangle_extracted LocalMeshData_init_def)

text \<open>
  C8, as the code has it. Extraction copies the mesh exactly: the coordinates and global
  indices of its vertices and the vertices of its cells, in the order of the mesh, nothing
  duplicated and nothing lost. Nothing is redistributed: after the statements that follow
  the constructor's guard, rank 0 of a group of more than one process holds the whole
  extracted record, and every other rank, as well as the only rank of a single-process
  group, holds the empty initial record.
\<close>

theorem mesh_extraction_exact:
  "extract_mesh_data mesh d =
     \<lparr>vertex_coordinates =
        map (\<lambda>v. map (vertex_x v) [0..<unat (geometry_dim mesh)]) (mesh_vertices mesh),
      vertex_indices = map vertex_index (mesh_vertices mesh),
      cell_vertices =
        map (\<lambda>c. map (entities0 c) [0..<unat (num_entities0 c)]) (mesh_cells mesh),
      num_global_vertices = num_vertices mesh,
      num_global_cells = num_cells mesh,
      gdim = geometry_dim mesh,
      tdim = topology_dim mesh\<rparr>
   \<and> snd (distribute_mesh_data P k mesh LocalMeshData_init) =
       (if 1 < P \<and> k = 0 then extract_mesh_data mesh LocalMeshData_init
        else LocalMeshData_init)"
  by (simp add: extract_mesh_data_eq distribute_mesh_data_def is_broadcaster_def
      broadcast_mesh_data_def receive_mesh_data_def)

text \<open>
  C8 as stated fails on the triangle: with two processes the constructor fails on both
  ranks, and past its guard rank 0 keeps all three vertices and rank 1 none; with one
  process the only rank holds no vertex of the three.
\<close>

theorem redistribution_counterexample:
  "snd (LocalMeshData_of_mesh 2 0 triangle) = Inl ShouldNotBeCalled
   \<and> snd (LocalMeshData_of_mesh 2 1 triangle) = Inl ShouldNotBeCalled
   \<and> vertex_indices (snd (distribute_mesh_data 2 0 triangle LocalMeshData_init)) = [0, 1, 2]
   \<and> vertex_indices (snd (distribute_mesh_data 2 1 triangle LocalMeshData_init)) = []
   \<and> vertex_indices (snd (distribute_mesh_data 1 0 triangle LocalMeshData_init)) = []
   \<and> vertex_indices (extract_mesh_data triangle LocalMeshData_init) = [0, 1, 2]"
  by (simp add: LocalMeshData_of_mesh_def dolfin_error_def distribute_mesh_data_def
      is_broadcaster_def receive_mesh_data_def broadcast_mesh_data_def triangle_extracted
      LocalMeshData_init_def)

text \<open>
  C9. After \<open>extract_mesh_data\<close>, whatever the record held before, there are as many
  coordinate tuples and vertex indices as \<open>num_global_vertices\<close>, every tuple has \<open>gdim\<close>
  entries, there are as many cells as \<open>num_global_cells\<close>, and the four scalars are those
  of the mesh. The iterators of a mesh visit \<^verbatim>\<open>num_vertices()\<close> vertices and
  \<^verbatim>\<open>num_cells()\<close> cells; this property of the mesh is the hypothesis.
\<close>

theorem extract_mesh_data_shape:
  assumes "length (mesh_vertices mesh) = unat (num_vertices mesh)"
    and "length (mesh_cells mesh) = unat (num_cells mesh)"
  shows "length (vertex_coordinates (extract_mesh_data mesh d))
           = unat (num_global_vertices (extract_mesh_data mesh d))
       \<and> (\<forall>c \<in> set (vertex_coordinates (extract_mesh_data mesh d)).
             length c = unat (gdim (extract_mesh_data mesh d)))
       \<and> length (vertex_indices (extract_mesh_data mesh d))
           = unat (num_global_vertices (extract_mesh_data mesh d))
       \<and> length (cell_vertices (extract_mesh_data mesh d))
           = unat (num_global_cells (extract_mesh_data mesh d))
       \<and> gdim (extract_mesh_data mesh d) = geometry_dim mesh
       \<and> tdim (extract_mesh_data mesh d) = topology_dim mesh
       \<and> num_global_vertices (extract_mesh_data mesh d) = num_vertices mesh
       \<and> num_global_cells (extract_mesh_data mesh d) = num_cells mesh"
  using assms by (auto simp: extract_mesh_data_eq)

theorem extract_mesh_data_shape_witness:
  "length (mesh_vertices triangle) = unat (num_vertices triangle)
   \<and> length (mesh_cells triangle) = unat (num_cells triangle)
   \<and> length (vertex_coordinates (extract_mesh_data triangle LocalMeshData_init)) = 3
   \<and> length (vertex_indices (extract_mesh_data triangle LocalMeshData_init)) = 3
   \<and> length (cell_vertices (extract_mesh_data triangle LocalMeshData_init)) = 1
   \<and> unat (num_global_vertices (extract_mesh_data triangle LocalMeshData_init)) = 3
   \<and> unat (num_global_cells (extract_mesh_data triangle LocalMeshData_init)) = 1
   \<and> unat (gdim (extract_mesh_data triangle LocalMeshData_init)) = 2"
proof -
  have h: "length (mesh_vertices triangle) = unat (num_vertices triangle)"
      "length (mesh_cells triangle) = unat (num_cells triangle)"
    by (simp_all add: triangle_def)
  from extract_mesh_data_shape [OF h, of LocalMeshData_init] h show ?thesis
    by (simp add: triangle_extracted)
qed

text \<open>
  C10. \<open>is_broadcaster\<close> and \<open>is_receiver\<close> are never both true; with one process both
  are false; with more than one process exactly one of them is true, \<open>is_broadcaster\<close>
  exactly for rank 0 and \<open>is_receiver\<close> exactly for the ranks above 0.
\<close>

theorem broadcaster_receiver_roles:
  "\<not> (is_broadcaster P k \<and> is_receiver P k)
   \<and> (P = 1 \<longrightarrow> \<not> is_broadcaster P k \<and> \<not> is_receiver P k)
   \<and> (P > 1 \<longrightarrow> (is_broadcaster P k \<noteq> is_receiver P k)
                 \<and> (is_broadcaster P k \<longleftrightarrow> k = 0)
                 \<and> (is_receiver P k \<longleftrightarrow> k > 0))"
  by (auto simp: is_broadcaster_def is_receiver_def word_greater_zero_iff)

theorem broadcaster_receiver_roles_witness:
  "\<not> is_broadcaster 1 0 \<and> \<not> is_receiver 1 0
   \<and> is_broadcaster 4 0 \<and> \<not> is_receiver 4 0
   \<and> is_receiver 4 3 \<and> \<not> is_broadcaster 4 3"
  using broadcaster_receiver_roles [of 1 0] broadcaster_receiver_roles [of 4 0]
    broadcaster_receiver_roles [of 4 3]
  by simp

end
